theory Spec2Isabelle
  imports Main "HOL-Library.Log_Nat"
begin

section \<open>The counter service of \<open>src/backend/server.js\<close>\<close>

text \<open>
  The server keeps one SQLite table \<open>counter (id INTEGER PRIMARY KEY AUTOINCREMENT,
  value INTEGER NOT NULL DEFAULT 0)\<close> in the file \<open>counter.db\<close> and answers three routes.
  The database file is modelled as an explicit state that every statement takes and
  returns; a callback chain of the source is the sequential composition of its
  statements, each callback being called once, when its statement has finished.
  A statement can fail in two ways: the driver reports an error (a flag of the
  environment, \<open>True\<close> meaning "this call fails"), or the table does not exist.
  A failed statement leaves the file as it was (SQLite's statement atomicity).
\<close>

subsection \<open>Numbers: SQLite cells and JavaScript numbers\<close>

definition INT64_MIN :: int where
  "INT64_MIN = - (2 ^ 63)"

definition INT64_MAX :: int where
  "INT64_MAX = 2 ^ 63 - 1"

text \<open>
  A cell of the \<open>value\<close> column is modelled by the integer it denotes. SQLite stores it
  as a 64-bit INTEGER when it lies in \<open>[INT64_MIN, INT64_MAX]\<close>; the expression
  \<open>value + 1\<close> is exact there, except that at \<open>INT64_MAX\<close> the sum overflows and SQLite
  computes it as the REAL \<open>2 ^ 63\<close>, which the INTEGER affinity of the column cannot turn
  back into an integer. On a REAL outside the 64-bit range the sum \<open>value + 1.0\<close> rounds
  back to the same double. So a cell of the model is an INTEGER inside the range and an
  integer-valued REAL outside it.
\<close>

definition sqlite_plus_one :: "int \<Rightarrow> int" where
  "sqlite_plus_one v = (if INT64_MIN \<le> v \<and> v \<le> INT64_MAX then v + 1 else v)"

text \<open>
  The driver hands a cell to JavaScript as a Number, an IEEE-754 double: the integer is
  rounded to 53 significant bits, to nearest, ties to the even significand. Integers of
  magnitude up to \<open>2 ^ 53\<close> are exact. (The model stops below \<open>2 ^ 1024\<close>, where a double
  becomes infinite; cells never get there.)
\<close>

definition to_js_number :: "int \<Rightarrow> int" where
  "to_js_number n =
     (if \<bar>n\<bar> \<le> 2 ^ 53 then n
      else let q = 2 ^ nat (bitlen \<bar>n\<bar> - 53); d = n div q; r = n mod q
           in if 2 * r < q \<or> (2 * r = q \<and> even d) then d * q else (d + 1) * q)"

subsection \<open>The database file\<close>

record row =
  row_id :: int
  row_value :: int

text \<open>\<open>seq\<close> is the entry of \<open>sqlite_sequence\<close> that AUTOINCREMENT keeps for the table.\<close>

record table =
  rows :: "row list"
  seq :: int

record database =
  counter :: "table option"

definition empty_store :: database where
  "empty_store = \<lparr>counter = None\<rparr>"

datatype sqlite_error = SqliteFault | NoSuchTable | SqliteFull

text \<open>\<open>CREATE TABLE IF NOT EXISTS counter (...)\<close>\<close>

definition create_table_counter :: "bool \<Rightarrow> database \<Rightarrow> (sqlite_error + unit) \<times> database" where
  "create_table_counter fails d =
     (if fails then (Inl SqliteFault, d)
      else case counter d of
             None \<Rightarrow> (Inr (), d\<lparr>counter := Some \<lparr>rows = [], seq = 0\<rparr>\<rparr>)
           | Some t \<Rightarrow> (Inr (), d))"

text \<open>\<open>SELECT COUNT(*) as count FROM counter\<close>\<close>

definition select_count :: "bool \<Rightarrow> database \<Rightarrow> (sqlite_error + nat) \<times> database" where
  "select_count fails d =
     (if fails then (Inl SqliteFault, d)
      else case counter d of
             None \<Rightarrow> (Inl NoSuchTable, d)
           | Some t \<Rightarrow> (Inr (length (rows t)), d))"

text \<open>
  \<open>INSERT INTO counter (value) VALUES (?)\<close>: the new row gets the rowid after the largest
  one the table has ever held.
\<close>

definition next_rowid :: "table \<Rightarrow> int" where
  "next_rowid t = max (fold max (map row_id (rows t)) 0) (seq t) + 1"

definition insert_counter :: "bool \<Rightarrow> int \<Rightarrow> database \<Rightarrow> (sqlite_error + unit) \<times> database" where
  "insert_counter fails v d =
     (if fails then (Inl SqliteFault, d)
      else case counter d of
             None \<Rightarrow> (Inl NoSuchTable, d)
           | Some t \<Rightarrow>
               (let i = next_rowid t
                in if INT64_MAX < i then (Inl SqliteFull, d)
                   else (Inr (), d\<lparr>counter :=
                           Some \<lparr>rows = rows t @ [\<lparr>row_id = i, row_value = v\<rparr>], seq = i\<rparr>\<rparr>)))"

text \<open>\<open>UPDATE counter SET value = value + 1 WHERE id = 1\<close>\<close>

definition update_increment :: "bool \<Rightarrow> database \<Rightarrow> (sqlite_error + unit) \<times> database" where
  "update_increment fails d =
     (if fails then (Inl SqliteFault, d)
      else case counter d of
             None \<Rightarrow> (Inl NoSuchTable, d)
           | Some t \<Rightarrow>
               (Inr (), d\<lparr>counter := Some (t\<lparr>rows :=
                  map (\<lambda>r. if row_id r = 1
                            then r\<lparr>row_value := sqlite_plus_one (row_value r)\<rparr> else r)
                      (rows t)\<rparr>)\<rparr>))"

text \<open>
  \<open>SELECT value FROM counter WHERE id = 1\<close> through \<open>db.get\<close>: the first matching row as a
  JavaScript object (here its \<open>value\<close> property), or \<open>undefined\<close> (\<open>None\<close>) when no row
  matches.
\<close>

definition select_value :: "bool \<Rightarrow> database \<Rightarrow> (sqlite_error + int option) \<times> database" where
  "select_value fails d =
     (if fails then (Inl SqliteFault, d)
      else case counter d of
             None \<Rightarrow> (Inl NoSuchTable, d)
           | Some t \<Rightarrow>
               (Inr (map_option (\<lambda>r. to_js_number (row_value r))
                       (find (\<lambda>r. row_id r = 1) (rows t))), d))"

text \<open>The value the row with id 1 holds in the file, if there is such a row.\<close>

definition stored_value :: "database \<Rightarrow> int option" where
  "stored_value d =
     (case counter d of
        None \<Rightarrow> None
      | Some t \<Rightarrow> map_option row_value (find (\<lambda>r. row_id r = 1) (rows t)))"

subsection \<open>Startup\<close>

record init_faults =
  open_fails :: bool
  create_fails :: bool
  count_fails :: bool
  insert_fails :: bool

definition initializeDatabase :: "init_faults \<Rightarrow> database \<Rightarrow> (sqlite_error + unit) \<times> database" where
  "initializeDatabase f d =
     (if open_fails f then (Inl SqliteFault, d)
      else case create_table_counter (create_fails f) d of
             (Inl err, d1) \<Rightarrow> (Inl err, d1)
           | (Inr u, d1) \<Rightarrow>
               (case select_count (count_fails f) d1 of
                  (Inl err, d2) \<Rightarrow> (Inl err, d2)
                | (Inr count, d2) \<Rightarrow>
                    if count = 0 then
                      (case insert_counter (insert_fails f) 0 d2 of
                         (Inl err, d3) \<Rightarrow> (Inl err, d3)
                       | (Inr u', d3) \<Rightarrow> (Inr (), d3))
                    else (Inr (), d2)))"

datatype process = NotRunning | Listening | Exited nat

text \<open>
  \<open>initializeDatabase().then(... app.listen ...).catch(... process.exit(1))\<close>
\<close>

definition startup :: "init_faults \<Rightarrow> database \<Rightarrow> process \<times> database" where
  "startup f d =
     (case initializeDatabase f d of
        (Inr u, d') \<Rightarrow> (Listening, d')
      | (Inl err, d') \<Rightarrow> (Exited 1, d'))"

subsection \<open>Responses and handlers\<close>

datatype json = JNumber int | JString string | JObject "(string \<times> json) list"

text \<open>
  A body is what the handler gives to \<open>res.json\<close> or to \<open>res.send\<close>; \<open>FrontendHtml\<close> is
  the inline page of the route \<open>/\<close>, \<open>ErrorPage\<close> the page of Express's own error handler.
\<close>

datatype body = Json json | Send string | FrontendHtml | ErrorPage

record response =
  status :: nat
  body :: body

record faults =
  update_fails :: bool
  select_fails :: bool

definition no_faults :: faults where
  "no_faults = \<lparr>update_fails = False, select_fails = False\<rparr>"

definition json_value :: "int \<Rightarrow> body" where
  "json_value n = Json (JObject [(''value'', JNumber n)])"

definition json_error :: "string \<Rightarrow> body" where
  "json_error msg = Json (JObject [(''error'', JString msg)])"

definition get_api_counter :: "faults \<Rightarrow> database \<Rightarrow> response \<times> database" where
  "get_api_counter f d =
     (case select_value (select_fails f) d of
        (Inl err, d1) \<Rightarrow>
          (\<lparr>status = 500, body = json_error ''Failed to retrieve counter value.''\<rparr>, d1)
      | (Inr None, d1) \<Rightarrow> (\<lparr>status = 200, body = json_value 0\<rparr>, d1)
      | (Inr (Some v), d1) \<Rightarrow> (\<lparr>status = 200, body = json_value v\<rparr>, d1))"

definition post_api_counter_increment :: "faults \<Rightarrow> database \<Rightarrow> response \<times> database" where
  "post_api_counter_increment f d =
     (case update_increment (update_fails f) d of
        (Inl err, d1) \<Rightarrow>
          (\<lparr>status = 500, body = json_error ''Failed to increment counter value.''\<rparr>, d1)
      | (Inr u, d1) \<Rightarrow>
          (case select_value (select_fails f) d1 of
             (Inl err, d2) \<Rightarrow>
               (\<lparr>status = 500, body = json_error ''Failed to retrieve new counter value.''\<rparr>, d2)
           | (Inr None, d2) \<Rightarrow>
               (\<lparr>status = 500,
                 body = json_error ''Counter row disappeared after increment.''\<rparr>, d2)
           | (Inr (Some v), d2) \<Rightarrow> (\<lparr>status = 200, body = json_value v\<rparr>, d2)))"

definition get_root :: "database \<Rightarrow> response \<times> database" where
  "get_root d = (\<lparr>status = 200, body = FrontendHtml\<rparr>, d)"

definition not_found :: "database \<Rightarrow> response \<times> database" where
  "not_found d = (\<lparr>status = 404, body = Send ''404: Not Found''\<rparr>, d)"

subsection \<open>Routing\<close>

text \<open>
  A request is its method (\<open>req.method\<close>), the path of its URL, and what the middleware
  \<open>express.json()\<close> makes of its headers and body: \<open>None\<close> when it passes the request on
  (no JSON body, or a well-formed one), \<open>Some s\<close> when it raises an HTTP error of status
  \<open>s\<close> (400 for malformed JSON, 413 for a body that is too large), which Express's own
  error handler answers without running any route.
\<close>

record request =
  http_method :: string
  path :: string
  json_body_error :: "nat option"

text \<open>
  Express matches a route path without regard to the case of ASCII letters and accepts one
  trailing slash (the defaults of \<open>case sensitive routing\<close> and \<open>strict routing\<close>); a
  route declared with \<open>app.get\<close> also answers HEAD.
\<close>

definition to_lower :: "char \<Rightarrow> char" where
  "to_lower c =
     (let n = of_char c :: nat in if 65 \<le> n \<and> n \<le> 90 then char_of (n + 32) else c)"

definition path_matches :: "string \<Rightarrow> string \<Rightarrow> bool" where
  "path_matches route p =
     (let q = map to_lower p
      in if route = ''/'' then q = [] \<or> q = ''/'' else q = route \<or> q = route @ ''/'')"

definition method_matches :: "string \<Rightarrow> string \<Rightarrow> bool" where
  "method_matches route_method m = (m = route_method \<or> (m = ''HEAD'' \<and> route_method = ''GET''))"

definition route_matches :: "string \<Rightarrow> string \<Rightarrow> request \<Rightarrow> bool" where
  "route_matches route_method route req =
     (method_matches route_method (http_method req) \<and> path_matches route (path req))"

text \<open>The middleware stack in the order of the source: body parser, three routes, 404.\<close>

definition app :: "request \<Rightarrow> faults \<Rightarrow> database \<Rightarrow> response \<times> database" where
  "app req f d =
     (case json_body_error req of
        Some s \<Rightarrow> (\<lparr>status = s, body = ErrorPage\<rparr>, d)
      | None \<Rightarrow>
          if route_matches ''GET'' ''/api/counter'' req then get_api_counter f d
          else if route_matches ''POST'' ''/api/counter/increment'' req
            then post_api_counter_increment f d
          else if route_matches ''GET'' ''/'' req then get_root d
          else not_found d)"

subsection \<open>The system over time\<close>

record system =
  proc :: process
  store :: database

definition initial_system :: system where
  "initial_system = \<lparr>proc = NotRunning, store = empty_store\<rparr>"

text \<open>
  The process is started (again), killed, or, while it listens, handles a request. A
  request to a process that does not listen reaches no handler.
\<close>

datatype event = Start init_faults | Kill | Http request faults

fun sys_step :: "event \<Rightarrow> system \<Rightarrow> system" where
  "sys_step (Start f) s =
     (if proc s = Listening then s
      else case startup f (store s) of (p, d) \<Rightarrow> \<lparr>proc = p, store = d\<rparr>)"
| "sys_step Kill s = s\<lparr>proc := NotRunning\<rparr>"
| "sys_step (Http req f) s =
     (if proc s = Listening then s\<lparr>store := snd (app req f (store s))\<rparr> else s)"

inductive reachable :: "system \<Rightarrow> bool" where
  reachable_initial: "reachable initial_system"
| reachable_step: "reachable s \<Longrightarrow> reachable (sys_step e s)"

text \<open>The states from the first successful startup on.\<close>

inductive reachable_after_init :: "system \<Rightarrow> bool" where
  after_init_start:
    "reachable s \<Longrightarrow> proc s \<noteq> Listening \<Longrightarrow> proc (sys_step (Start f) s) = Listening
     \<Longrightarrow> reachable_after_init (sys_step (Start f) s)"
| after_init_step: "reachable_after_init s \<Longrightarrow> reachable_after_init (sys_step e s)"

subsection \<open>Requests in flight at the same time\<close>

text \<open>
  All requests share the one connection \<open>db\<close>, on which SQLite runs one statement at a
  time. An increment request is two statements, the second issued from the callback of
  the first, so the statements of several requests interleave in any order that keeps
  each request's own order. A schedule names, step by step, the request whose next
  statement runs and whether the driver reports an error for it.
\<close>

datatype pending = AwaitUpdate | AwaitSelect | Responded response

fun run_statement :: "bool \<Rightarrow> pending \<Rightarrow> database \<Rightarrow> pending \<times> database" where
  "run_statement fails AwaitUpdate d =
     (case update_increment fails d of
        (Inl err, d1) \<Rightarrow>
          (Responded \<lparr>status = 500, body = json_error ''Failed to increment counter value.''\<rparr>, d1)
      | (Inr u, d1) \<Rightarrow> (AwaitSelect, d1))"
| "run_statement fails AwaitSelect d =
     (case select_value fails d of
        (Inl err, d2) \<Rightarrow>
          (Responded \<lparr>status = 500,
                      body = json_error ''Failed to retrieve new counter value.''\<rparr>, d2)
      | (Inr None, d2) \<Rightarrow>
          (Responded \<lparr>status = 500,
                      body = json_error ''Counter row disappeared after increment.''\<rparr>, d2)
      | (Inr (Some v), d2) \<Rightarrow> (Responded \<lparr>status = 200, body = json_value v\<rparr>, d2))"
| "run_statement fails (Responded r) d = (Responded r, d)"

fun conc_step :: "nat \<times> bool \<Rightarrow> database \<times> pending list \<Rightarrow> database \<times> pending list" where
  "conc_step (i, fails) (d, ps) =
     (if i < length ps
      then case run_statement fails (ps ! i) d of (p, d') \<Rightarrow> (d', ps[i := p])
      else (d, ps))"

definition run_schedule :: "(nat \<times> bool) list \<Rightarrow> nat \<Rightarrow> database \<Rightarrow> database \<times> pending list" where
  "run_schedule sch k d = fold conc_step sch (d, replicate k AwaitUpdate)"

definition all_responded :: "pending list \<Rightarrow> bool" where
  "all_responded ps = list_all (\<lambda>p. case p of Responded r \<Rightarrow> True | _ \<Rightarrow> False) ps"

subsection \<open>Sequences of requests and sample stores\<close>

text \<open>\<open>n\<close> increment requests one after the other, none meeting a storage error.\<close>

fun increment_times :: "nat \<Rightarrow> database \<Rightarrow> database" where
  "increment_times 0 d = d"
| "increment_times (Suc n) d = increment_times n (snd (post_api_counter_increment no_faults d))"

text \<open>The file as the program itself leaves it: one row, id 1, holding \<open>v\<close>.\<close>

definition store_with :: "int \<Rightarrow> database" where
  "store_with v = \<lparr>counter = Some \<lparr>rows = [\<lparr>row_id = 1, row_value = v\<rparr>], seq = 1\<rparr>\<rparr>"

text \<open>A startup in which no storage call fails.\<close>

definition no_init_faults :: init_faults where
  "no_init_faults =
     \<lparr>open_fails = False, create_fails = False, count_fails = False, insert_fails = False\<rparr>"

text \<open>A file whose table has a row, but none with id 1.\<close>

definition store_without_row :: database where
  "store_without_row = \<lparr>counter = Some \<lparr>rows = [\<lparr>row_id = 6, row_value = 0\<rparr>], seq = 6\<rparr>\<rparr>"

text \<open>Sample requests and a startup whose initial insert fails.\<close>

definition unknown_request :: request where
  "unknown_request = \<lparr>http_method = ''GET'', path = ''/nope'', json_body_error = None\<rparr>"

definition increment_request :: request where
  "increment_request =
     \<lparr>http_method = ''POST'', path = ''/api/counter/increment'', json_body_error = None\<rparr>"

definition insert_failure :: init_faults where
  "insert_failure =
     \<lparr>open_fails = False, create_fails = False, count_fails = False, insert_fails = True\<rparr>"

text \<open>
  The two shapes of the file over the life of the system: before the first successful
  startup the table is absent or empty; afterwards it holds the one row of id 1.
\<close>

definition fresh_store :: "database \<Rightarrow> bool" where
  "fresh_store d = (d = empty_store \<or> d = \<lparr>counter = Some \<lparr>rows = [], seq = 0\<rparr>\<rparr>)"

definition initialized_store :: "database \<Rightarrow> bool" where
  "initialized_store d =
     (case stored_value d of None \<Rightarrow> False | Some v \<Rightarrow> 0 \<le> v \<and> d = store_with v)"

text \<open>The system after its first startup, no storage call failing.\<close>

definition first_start :: system where
  "first_start = sys_step (Start no_init_faults) initial_system"

text \<open>
  The requests whose \<open>UPDATE\<close> has run; schedules in which no statement meets a storage
  error; two sample schedules.
\<close>

definition started :: "pending list \<Rightarrow> nat" where
  "started ps = length (filter (\<lambda>p. p \<noteq> AwaitUpdate) ps)"

definition no_fault_schedule :: "(nat \<times> bool) list \<Rightarrow> bool" where
  "no_fault_schedule sch = list_all (\<lambda>(i, fails). \<not> fails) sch"

definition interleaved :: "(nat \<times> bool) list" where
  "interleaved = [(0, False), (1, False), (1, False), (2, False), (0, False), (2, False)]"

definition two_requests :: "(nat \<times> bool) list" where
  "two_requests = [(0, False), (1, False), (1, False), (0, False)]"

section \<open>Properties\<close>

subsection \<open>Statements and the stored value\<close>

lemma to_js_number_exact: "\<bar>n\<bar> \<le> 2 ^ 53 \<Longrightarrow> to_js_number n = n"
  by (simp add: to_js_number_def)

lemma find_map_update:
  "find (\<lambda>r. row_id r = 1)
     (map (\<lambda>r. if row_id r = 1 then r\<lparr>row_value := g (row_value r)\<rparr> else r) xs) =
   map_option (\<lambda>r. r\<lparr>row_value := g (row_value r)\<rparr>) (find (\<lambda>r. row_id r = 1) xs)"
  by (induction xs) auto

lemma stored_value_update:
  "counter d = Some t \<Longrightarrow>
   stored_value (snd (update_increment False d)) = map_option sqlite_plus_one (stored_value d)"
  by (simp add: update_increment_def stored_value_def find_map_update option.map_comp comp_def)

lemma update_increment_table:
  "counter d = Some t \<Longrightarrow>
   fst (update_increment False d) = Inr () \<and> (\<exists>t1. counter (snd (update_increment False d)) = Some t1)"
  by (simp add: update_increment_def)

lemma select_value_stored:
  "counter d = Some t \<Longrightarrow>
   select_value False d = (Inr (map_option to_js_number (stored_value d)), d)"
  by (simp add: select_value_def stored_value_def option.map_comp comp_def)

lemma select_value_frame: "snd (select_value fails d) = d"
  by (simp add: select_value_def split: option.splits)

lemma stored_value_table: "stored_value d = Some v \<Longrightarrow> \<exists>t. counter d = Some t"
  by (auto simp: stored_value_def split: option.splits)

lemma stored_value_store_with: "stored_value (store_with v) = Some v"
  by (simp add: stored_value_def store_with_def)

lemma post_store:
  "snd (post_api_counter_increment f d) = snd (update_increment (update_fails f) d)"
proof -
  obtain r d1 where u: "update_increment (update_fails f) d = (r, d1)"
    by (cases "update_increment (update_fails f) d")
  obtain q d2 where s: "select_value (select_fails f) d1 = (q, d2)"
    by (cases "select_value (select_fails f) d1")
  have "d2 = d1" using select_value_frame [of "select_fails f" d1] s by simp
  with u s show ?thesis
    by (simp add: post_api_counter_increment_def split: sum.splits option.splits)
qed

lemma post_ok:
  assumes "stored_value d = Some v" "\<not> update_fails f" "\<not> select_fails f"
  shows "post_api_counter_increment f d =
           (\<lparr>status = 200, body = json_value (to_js_number (sqlite_plus_one v))\<rparr>,
            snd (update_increment False d))"
    and "stored_value (snd (update_increment False d)) = Some (sqlite_plus_one v)"
proof -
  obtain t where t: "counter d = Some t" using assms(1) stored_value_table by blast
  obtain d1 where u: "update_increment False d = (Inr (), d1)"
    using update_increment_table [OF t] by (cases "update_increment False d") auto
  obtain t1 where t1: "counter d1 = Some t1"
    using update_increment_table [OF t] u by auto
  have sv: "stored_value d1 = Some (sqlite_plus_one v)"
    using stored_value_update [OF t] u assms(1) by simp
  then show "stored_value (snd (update_increment False d)) = Some (sqlite_plus_one v)"
    using u by simp
  show "post_api_counter_increment f d =
           (\<lparr>status = 200, body = json_value (to_js_number (sqlite_plus_one v))\<rparr>,
            snd (update_increment False d))"
    using assms(2,3) u sv select_value_stored [OF t1]
    by (simp add: post_api_counter_increment_def)
qed

text \<open>The routes of the two handlers, through the whole application.\<close>

lemma app_get:
  "json_body_error req = None \<Longrightarrow> route_matches ''GET'' ''/api/counter'' req \<Longrightarrow>
   app req f d = get_api_counter f d"
  by (simp add: app_def)

lemma app_increment:
  "json_body_error req = None \<Longrightarrow> route_matches ''POST'' ''/api/counter/increment'' req \<Longrightarrow>
   app req f d = post_api_counter_increment f d"
  by (auto simp: app_def route_matches_def method_matches_def)

subsection \<open>One increment\<close>

text \<open>
  \<open>post_api_counter_increment\<close> is the handler whose two statements run back to back. With
  other requests in flight, that is the request whose \<open>UPDATE\<close> and \<open>SELECT\<close> are
  consecutive steps of the schedule.
\<close>

lemma handler_is_two_statements:
  "(case run_statement (update_fails f) AwaitUpdate d of
      (p, d1) \<Rightarrow> run_statement (select_fails f) p d1) =
   (Responded (fst (post_api_counter_increment f d)), snd (post_api_counter_increment f d))"
proof -
  obtain r d1 where u: "update_increment (update_fails f) d = (r, d1)"
    by (cases "update_increment (update_fails f) d")
  obtain q d2 where s: "select_value (select_fails f) d1 = (q, d2)"
    by (cases "select_value (select_fails f) d1")
  show ?thesis
    using u s by (cases r; cases q) (auto simp: post_api_counter_increment_def split: option.splits)
qed

lemma conc_alone:
  assumes "i < length ps" and "ps ! i = AwaitUpdate"
  shows "conc_step (i, select_fails f) (conc_step (i, update_fails f) (d, ps)) =
           (snd (post_api_counter_increment f d),
            ps[i := Responded (fst (post_api_counter_increment f d))])"
proof -
  obtain p d1 where u: "run_statement (update_fails f) AwaitUpdate d = (p, d1)"
    by (cases "run_statement (update_fails f) AwaitUpdate d")
  obtain q d2 where s: "run_statement (select_fails f) p d1 = (q, d2)"
    by (cases "run_statement (select_fails f) p d1")
  have h: "q = Responded (fst (post_api_counter_increment f d))"
          "d2 = snd (post_api_counter_increment f d)"
    using handler_is_two_statements [of f d] u s by simp_all
  have first: "conc_step (i, update_fails f) (d, ps) = (d1, ps[i := p])"
    using assms u by simp
  have second: "conc_step (i, select_fails f) (d1, ps[i := p]) = (d2, ps[i := q])"
    using assms(1) s by simp
  show ?thesis
    using first second h by simp
qed

text \<open>
  C1, as it holds: when the row with id 1 holds a 64-bit integer \<open>V\<close>, neither statement
  meets a storage error, and no statement of another request runs between the \<open>UPDATE\<close>
  and the \<open>SELECT\<close> of this one, \<open>POST /api/counter/increment\<close> leaves \<open>V + 1\<close> in the
  file and answers 200 with the JavaScript number nearest to \<open>V + 1\<close> as \<open>value\<close>; that
  number is \<open>V + 1\<close> itself whenever \<open>\<bar>V + 1\<bar> \<le> 2 ^ 53\<close>. The last part states it among
  any other requests in flight, whatever their progress.
\<close>

theorem increment_adds_one:
  assumes "stored_value d = Some V" and "INT64_MIN \<le> V" and "V \<le> INT64_MAX"
    and "\<not> update_fails f" and "\<not> select_fails f"
  shows "fst (post_api_counter_increment f d) =
           \<lparr>status = 200, body = json_value (to_js_number (V + 1))\<rparr>
         \<and> stored_value (snd (post_api_counter_increment f d)) = Some (V + 1)
         \<and> (\<bar>V + 1\<bar> \<le> 2 ^ 53 \<longrightarrow>
              fst (post_api_counter_increment f d) = \<lparr>status = 200, body = json_value (V + 1)\<rparr>)
         \<and> (i < length ps \<and> ps ! i = AwaitUpdate \<longrightarrow>
              conc_step (i, select_fails f) (conc_step (i, update_fails f) (d, ps)) =
                (snd (post_api_counter_increment f d),
                 ps[i := Responded \<lparr>status = 200, body = json_value (to_js_number (V + 1))\<rparr>]))"
proof -
  have p: "sqlite_plus_one V = V + 1"
    using assms(2,3) by (simp add: sqlite_plus_one_def)
  have r: "fst (post_api_counter_increment f d) =
           \<lparr>status = 200, body = json_value (to_js_number (V + 1))\<rparr>"
    using post_ok(1) [OF assms(1,4,5)] p by simp
  have s: "stored_value (snd (post_api_counter_increment f d)) = Some (V + 1)"
    using post_ok [OF assms(1,4,5)] p by simp
  have e: "\<bar>V + 1\<bar> \<le> 2 ^ 53 \<longrightarrow>
              fst (post_api_counter_increment f d) = \<lparr>status = 200, body = json_value (V + 1)\<rparr>"
    using r by (simp add: to_js_number_exact)
  have c: "i < length ps \<and> ps ! i = AwaitUpdate \<longrightarrow>
              conc_step (i, select_fails f) (conc_step (i, update_fails f) (d, ps)) =
                (snd (post_api_counter_increment f d),
                 ps[i := Responded \<lparr>status = 200, body = json_value (to_js_number (V + 1))\<rparr>])"
    using conc_alone [of i ps f d] r by simp
  show ?thesis using r s e c by blast
qed

text \<open>The theorem at the stored value 41, alone and beside a request that has not begun.\<close>

theorem increment_adds_one_witness:
  "stored_value (store_with 41) = Some 41 \<and> INT64_MIN \<le> 41 \<and> 41 \<le> INT64_MAX
   \<and> \<not> update_fails no_faults \<and> \<not> select_fails no_faults
   \<and> \<bar>41 + 1 :: int\<bar> \<le> 2 ^ 53
   \<and> Suc 0 < length [AwaitUpdate, AwaitUpdate] \<and> [AwaitUpdate, AwaitUpdate] ! Suc 0 = AwaitUpdate
   \<and> fst (post_api_counter_increment no_faults (store_with 41)) =
        \<lparr>status = 200, body = json_value 42\<rparr>
   \<and> stored_value (snd (post_api_counter_increment no_faults (store_with 41))) = Some 42
   \<and> conc_step (Suc 0, False) (conc_step (Suc 0, False) (store_with 41, [AwaitUpdate, AwaitUpdate])) =
        (snd (post_api_counter_increment no_faults (store_with 41)),
         [AwaitUpdate, Responded \<lparr>status = 200, body = json_value 42\<rparr>])"
proof -
  have a: "stored_value (store_with 41) = Some 41"
    by (rule stored_value_store_with)
  have b: "INT64_MIN \<le> 41" "41 \<le> INT64_MAX"
    by (simp_all add: INT64_MIN_def INT64_MAX_def)
  have c: "\<not> update_fails no_faults" "\<not> select_fails no_faults"
    by (simp_all add: no_faults_def)
  have n: "to_js_number 42 = 42"
    by (simp add: to_js_number_def)
  show ?thesis
    using increment_adds_one [OF a b c, of "Suc 0" "[AwaitUpdate, AwaitUpdate]"] a b c n
    by simp
qed

text \<open>
  C1 as stated fails in two ways. At \<open>V = 2 ^ 53\<close> the file then holds \<open>2 ^ 53 + 1\<close>,
  which no JavaScript number represents, and the response carries \<open>2 ^ 53\<close>. And with two
  requests from 10, when the second \<open>UPDATE\<close> runs before the first request's \<open>SELECT\<close>,
  the first request, which found 10 and left 11, is answered 12 without any storage error.
\<close>

theorem increment_response_counterexample:
  "stored_value (store_with 9007199254740992) = Some 9007199254740992
   \<and> fst (post_api_counter_increment no_faults (store_with 9007199254740992)) =
        \<lparr>status = 200, body = json_value 9007199254740992\<rparr>
   \<and> json_value 9007199254740992 \<noteq> json_value (9007199254740992 + 1)
   \<and> stored_value (store_with 10) = Some 10
   \<and> conc_step (0, False) (store_with 10, [AwaitUpdate, AwaitUpdate]) =
        (store_with 11, [AwaitSelect, AwaitUpdate])
   \<and> run_schedule two_requests 2 (store_with 10) =
        (store_with 12,
         [Responded \<lparr>status = 200, body = json_value 12\<rparr>,
          Responded \<lparr>status = 200, body = json_value 12\<rparr>])
   \<and> json_value 12 \<noteq> json_value (10 + 1)"
proof -
  have n: "to_js_number 9007199254740993 = 9007199254740992"
    by code_simp
  have s: "sqlite_plus_one 9007199254740992 = 9007199254740993"
    by (simp add: sqlite_plus_one_def INT64_MIN_def INT64_MAX_def)
  have a: "stored_value (store_with 9007199254740992) = Some 9007199254740992"
    by (rule stored_value_store_with)
  have c: "\<not> update_fails no_faults" "\<not> select_fails no_faults"
    by (simp_all add: no_faults_def)
  have big: "fst (post_api_counter_increment no_faults (store_with 9007199254740992)) =
        \<lparr>status = 200, body = json_value 9007199254740992\<rparr>"
    using post_ok(1) [OF a c] n s by simp
  have first: "conc_step (0, False) (store_with 10, [AwaitUpdate, AwaitUpdate]) =
        (store_with 11, [AwaitSelect, AwaitUpdate])"
    by (simp add: store_with_def update_increment_def sqlite_plus_one_def
        INT64_MIN_def INT64_MAX_def)
  have run: "run_schedule two_requests 2 (store_with 10) =
        (store_with 12,
         [Responded \<lparr>status = 200, body = json_value 12\<rparr>,
          Responded \<lparr>status = 200, body = json_value 12\<rparr>])"
    by (simp add: run_schedule_def two_requests_def store_with_def update_increment_def
        select_value_def sqlite_plus_one_def INT64_MIN_def INT64_MAX_def to_js_number_def
        numeral_2_eq_2)
  have ne: "json_value 9007199254740992 \<noteq> json_value (9007199254740992 + 1)"
       "json_value 12 \<noteq> json_value (10 + 1)"
    by (simp_all add: json_value_def)
  show ?thesis
    using big first run ne by (simp add: stored_value_store_with)
qed

subsection \<open>Several increments, then a read\<close>

lemma post_stored_value:
  assumes "stored_value d = Some v"
  shows "stored_value (snd (post_api_counter_increment no_faults d)) = Some (sqlite_plus_one v)"
  using post_ok(2) [OF assms, of no_faults] post_store [of no_faults d]
  by (simp add: no_faults_def)

lemma increment_times_stored:
  "stored_value d = Some V \<Longrightarrow> INT64_MIN \<le> V \<Longrightarrow> V + int n \<le> 2 ^ 63 \<Longrightarrow>
   stored_value (increment_times n d) = Some (V + int n)"
proof (induction n arbitrary: d V)
  case 0
  then show ?case by simp
next
  case (Suc n)
  have "V \<le> INT64_MAX"
    using Suc.prems(3) by (simp add: INT64_MAX_def)
  then have p: "sqlite_plus_one V = V + 1"
    using Suc.prems(2) by (simp add: sqlite_plus_one_def)
  have s: "stored_value (snd (post_api_counter_increment no_faults d)) = Some (V + 1)"
    using post_stored_value [OF Suc.prems(1)] p by simp
  have "stored_value (increment_times n (snd (post_api_counter_increment no_faults d)))
          = Some (V + 1 + int n)"
    using Suc.prems(2,3) by (intro Suc.IH [OF s]) simp_all
  then show ?case by (simp add: add.commute add.left_commute)
qed

lemma get_ok:
  assumes "stored_value d = Some v" "\<not> select_fails f"
  shows "get_api_counter f d = (\<lparr>status = 200, body = json_value (to_js_number v)\<rparr>, d)"
proof -
  obtain t where t: "counter d = Some t" using assms(1) stored_value_table by blast
  show ?thesis
    using assms select_value_stored [OF t] by (simp add: get_api_counter_def)
qed

text \<open>
  C2, as it holds: from a stored 64-bit integer \<open>V\<close>, after \<open>N\<close> increment requests in
  sequence, none meeting a storage error, with \<open>V + N \<le> 2 ^ 63\<close>, an error-free
  \<open>GET /api/counter\<close> answers 200 with the JavaScript number nearest to \<open>V + N\<close> as
  \<open>value\<close>, which is \<open>V + N\<close> itself whenever \<open>\<bar>V + N\<bar> \<le> 2 ^ 53\<close>.
\<close>

theorem increments_then_get:
  assumes "stored_value d = Some V" and "INT64_MIN \<le> V" and "V + int N \<le> 2 ^ 63"
    and "\<not> select_fails f"
  shows "get_api_counter f (increment_times N d) =
           (\<lparr>status = 200, body = json_value (to_js_number (V + int N))\<rparr>, increment_times N d)
         \<and> (\<bar>V + int N\<bar> \<le> 2 ^ 53 \<longrightarrow>
              fst (get_api_counter f (increment_times N d)) =
                \<lparr>status = 200, body = json_value (V + int N)\<rparr>)"
  using get_ok [OF increment_times_stored [OF assms(1,2,3)] assms(4)]
  by (simp add: to_js_number_exact)

text \<open>The scenario of the specification: three increments from 0, then a read.\<close>

theorem increments_then_get_witness:
  "stored_value (store_with 0) = Some 0 \<and> INT64_MIN \<le> 0 \<and> 0 + int 3 \<le> 2 ^ 63
   \<and> \<not> select_fails no_faults \<and> \<bar>0 + int 3\<bar> \<le> 2 ^ 53
   \<and> fst (get_api_counter no_faults (increment_times 3 (store_with 0))) =
        \<lparr>status = 200, body = json_value 3\<rparr>"
proof -
  have a: "stored_value (store_with 0) = Some 0"
    by (rule stored_value_store_with)
  have b: "INT64_MIN \<le> 0" "0 + int 3 \<le> 2 ^ 63"
    by (simp_all add: INT64_MIN_def)
  have c: "\<not> select_fails no_faults"
    by (simp add: no_faults_def)
  show ?thesis
    using increments_then_get [OF a b c] a b c by (simp add: to_js_number_def)
qed

text \<open>
  C2 as stated fails for \<open>V = 2 ^ 53\<close> and \<open>N = 1\<close>: the read answers \<open>2 ^ 53\<close>.
\<close>

theorem increments_then_get_counterexample:
  "stored_value (store_with 9007199254740992) = Some 9007199254740992
   \<and> get_api_counter no_faults (increment_times 1 (store_with 9007199254740992)) =
       (\<lparr>status = 200, body = json_value 9007199254740992\<rparr>,
        increment_times 1 (store_with 9007199254740992))
   \<and> json_value 9007199254740992 \<noteq> json_value (9007199254740992 + int 1)"
proof -
  have n: "to_js_number 9007199254740993 = 9007199254740992"
    by code_simp
  have a: "stored_value (store_with 9007199254740992) = Some 9007199254740992"
    by (rule stored_value_store_with)
  have b: "INT64_MIN \<le> 9007199254740992" "9007199254740992 + int 1 \<le> 2 ^ 63"
    by (simp_all add: INT64_MIN_def)
  have s: "stored_value (increment_times 1 (store_with 9007199254740992)) = Some 9007199254740993"
    using increment_times_stored [OF a b] by simp
  have c: "\<not> select_fails no_faults"
    by (simp add: no_faults_def)
  show ?thesis
    using get_ok [OF s c] a n by (simp add: json_value_def)
qed

subsection \<open>The first startup\<close>

lemma init_empty_store:
  "initializeDatabase f empty_store = (Inr (), d') \<Longrightarrow> d' = store_with 0"
  by (auto simp: initializeDatabase_def create_table_counter_def select_count_def
        insert_counter_def next_rowid_def empty_store_def store_with_def INT64_MAX_def
      split: if_splits)

lemma init_empty_store_ok:
  "initializeDatabase no_init_faults empty_store = (Inr (), store_with 0)"
  by (simp add: initializeDatabase_def create_table_counter_def select_count_def
        insert_counter_def next_rowid_def empty_store_def store_with_def INT64_MAX_def
        no_init_faults_def)

text \<open>
  C3: when startup initialization on the empty store has completed, a
  \<open>GET /api/counter\<close> that meets no storage error answers 200 with \<open>{"value": 0}\<close>.
\<close>

theorem empty_store_reads_zero:
  assumes "initializeDatabase f empty_store = (Inr (), d')" and "\<not> select_fails g"
  shows "get_api_counter g d' = (\<lparr>status = 200, body = json_value 0\<rparr>, d')"
proof -
  have "d' = store_with 0" using assms(1) by (rule init_empty_store)
  then have "stored_value d' = Some 0" by (simp add: stored_value_store_with)
  from get_ok [OF this assms(2)] show ?thesis
    by (simp add: to_js_number_def)
qed

text \<open>Initialization does complete on the empty store when no storage call fails.\<close>

theorem empty_store_reads_zero_witness:
  "initializeDatabase no_init_faults empty_store = (Inr (), store_with 0)
   \<and> \<not> select_fails no_faults
   \<and> get_api_counter no_faults (store_with 0) = (\<lparr>status = 200, body = json_value 0\<rparr>, store_with 0)"
proof -
  have c: "\<not> select_fails no_faults"
    by (simp add: no_faults_def)
  show ?thesis
    using empty_store_reads_zero [OF init_empty_store_ok c] init_empty_store_ok c by simp
qed

subsection \<open>Failures of the increment\<close>

text \<open>The body of the 500 response depends on the statement that failed.\<close>

lemma increment_failure_bodies:
  "(update_fails f \<or> counter d = None \<longrightarrow>
      fst (post_api_counter_increment f d) =
        \<lparr>status = 500, body = json_error ''Failed to increment counter value.''\<rparr>)
   \<and> (\<not> update_fails f \<and> counter d \<noteq> None \<and> select_fails f \<longrightarrow>
      fst (post_api_counter_increment f d) =
        \<lparr>status = 500, body = json_error ''Failed to retrieve new counter value.''\<rparr>)"
  by (auto simp: post_api_counter_increment_def update_increment_def select_value_def
      split: option.splits)

text \<open>
  C4 does not hold of the code: on a store holding 5, when the \<open>UPDATE\<close> succeeds and the
  \<open>SELECT\<close> after it fails, the handler answers 500 with
  \<open>{"error": "Failed to retrieve new counter value."}\<close>, which is not the body
  \<open>{"error": "Failed to increment counter value."}\<close> that the claim and the comment above
  the handler give for the endpoint.
\<close>

theorem increment_select_failure_body:
  "select_fails \<lparr>update_fails = False, select_fails = True\<rparr>
   \<and> fst (post_api_counter_increment \<lparr>update_fails = False, select_fails = True\<rparr> (store_with 5)) =
        \<lparr>status = 500, body = json_error ''Failed to retrieve new counter value.''\<rparr>
   \<and> json_error ''Failed to retrieve new counter value.''
        \<noteq> json_error ''Failed to increment counter value.''"
  by (simp add: post_api_counter_increment_def update_increment_def select_value_def
      store_with_def json_error_def)

subsection \<open>No row with id 1\<close>

text \<open>
  C7: when the table exists and has no row with id 1, a \<open>GET /api/counter\<close> whose query
  succeeds answers 200 with \<open>{"value": 0}\<close>, while \<open>POST /api/counter/increment\<close> answers
  500 with an error body in every case, never a defaulted value.
\<close>

theorem missing_row_read_defaults_increment_fails:
  assumes "counter d = Some t" and "stored_value d = None"
  shows "(\<not> select_fails g \<longrightarrow> fst (get_api_counter g d) = \<lparr>status = 200, body = json_value 0\<rparr>)
       \<and> fst (post_api_counter_increment f d) =
            \<lparr>status = 500,
             body = json_error
               (if update_fails f then ''Failed to increment counter value.''
                else if select_fails f then ''Failed to retrieve new counter value.''
                else ''Counter row disappeared after increment.'')\<rparr>"
proof -
  have g: "\<not> select_fails g \<Longrightarrow> fst (get_api_counter g d) = \<lparr>status = 200, body = json_value 0\<rparr>"
    using assms select_value_stored [OF assms(1)] by (simp add: get_api_counter_def)
  obtain d1 where u: "update_increment False d = (Inr (), d1)"
    using update_increment_table [OF assms(1)] by (cases "update_increment False d") auto
  obtain t1 where t1: "counter d1 = Some t1"
    using update_increment_table [OF assms(1)] u by auto
  have sv: "stored_value d1 = None"
    using stored_value_update [OF assms(1)] assms(2) u by simp
  have uf: "update_fails f \<Longrightarrow> fst (post_api_counter_increment f d) =
        \<lparr>status = 500, body = json_error ''Failed to increment counter value.''\<rparr>"
    by (simp add: post_api_counter_increment_def update_increment_def)
  have sf: "\<not> update_fails f \<Longrightarrow> select_fails f \<Longrightarrow> fst (post_api_counter_increment f d) =
        \<lparr>status = 500, body = json_error ''Failed to retrieve new counter value.''\<rparr>"
    using u by (simp add: post_api_counter_increment_def select_value_def)
  have nf: "\<not> update_fails f \<Longrightarrow> \<not> select_fails f \<Longrightarrow> fst (post_api_counter_increment f d) =
        \<lparr>status = 500, body = json_error ''Counter row disappeared after increment.''\<rparr>"
    using u select_value_stored [OF t1] sv by (simp add: post_api_counter_increment_def)
  show ?thesis
    using g uf sf nf by (cases "update_fails f"; cases "select_fails f") simp_all
qed

text \<open>Both answers on a table whose only row has id 6.\<close>

theorem missing_row_witness:
  "counter store_without_row = Some \<lparr>rows = [\<lparr>row_id = 6, row_value = 0\<rparr>], seq = 6\<rparr>
   \<and> stored_value store_without_row = None
   \<and> \<not> select_fails no_faults \<and> \<not> update_fails no_faults
   \<and> fst (get_api_counter no_faults store_without_row) = \<lparr>status = 200, body = json_value 0\<rparr>
   \<and> fst (post_api_counter_increment no_faults store_without_row) =
        \<lparr>status = 500, body = json_error ''Counter row disappeared after increment.''\<rparr>"
proof -
  have a: "counter store_without_row = Some \<lparr>rows = [\<lparr>row_id = 6, row_value = 0\<rparr>], seq = 6\<rparr>"
    by (simp add: store_without_row_def)
  have b: "stored_value store_without_row = None"
    by (simp add: store_without_row_def stored_value_def)
  have c: "\<not> select_fails no_faults" "\<not> update_fails no_faults"
    by (simp_all add: no_faults_def)
  show ?thesis
    using missing_row_read_defaults_increment_fails [OF a b, of no_faults no_faults] a b c
    by simp
qed

subsection \<open>Reading changes nothing\<close>

lemma get_frame: "snd (get_api_counter f d) = d"
proof -
  obtain q d1 where s: "select_value (select_fails f) d = (q, d1)"
    by (cases "select_value (select_fails f) d")
  have "d1 = d" using select_value_frame [of "select_fails f" d] s by simp
  with s show ?thesis
    by (simp add: get_api_counter_def split: sum.splits option.splits)
qed

text \<open>
  C10: \<open>GET /api/counter\<close> leaves the database file as it was, whether the query
  succeeds or fails; so does the whole application on a request that this route
  matches.
\<close>

theorem get_leaves_store_unchanged:
  "snd (get_api_counter f d) = d
   \<and> (route_matches ''GET'' ''/api/counter'' req \<longrightarrow> snd (app req f d) = d)"
  by (simp add: get_frame app_def split: option.splits)

text \<open>A read whose query fails, on a store holding 7.\<close>

theorem get_leaves_store_unchanged_witness:
  "route_matches ''GET'' ''/api/counter''
     \<lparr>http_method = ''GET'', path = ''/api/counter'', json_body_error = None\<rparr>
   \<and> snd (app \<lparr>http_method = ''GET'', path = ''/api/counter'', json_body_error = None\<rparr>
             \<lparr>update_fails = False, select_fails = True\<rparr> (store_with 7)) = store_with 7"
proof -
  have m: "route_matches ''GET'' ''/api/counter''
     \<lparr>http_method = ''GET'', path = ''/api/counter'', json_body_error = None\<rparr>"
    by (simp add: route_matches_def method_matches_def path_matches_def to_lower_def)
  show ?thesis
    using get_leaves_store_unchanged [of "\<lparr>update_fails = False, select_fails = True\<rparr>"
        "store_with 7" "\<lparr>http_method = ''GET'', path = ''/api/counter'', json_body_error = None\<rparr>"] m
    by simp
qed

subsection \<open>Requests that no route matches\<close>

text \<open>
  C5, as it holds: a request that the body parser passes on and that none of the three
  routes matches gets status 404 and the body \<open>404: Not Found\<close>, given to \<open>res.send\<close>; the
  database file is not touched.
\<close>

theorem unmatched_request_404:
  assumes "json_body_error req = None"
    and "\<not> route_matches ''GET'' ''/api/counter'' req"
    and "\<not> route_matches ''POST'' ''/api/counter/increment'' req"
    and "\<not> route_matches ''GET'' ''/'' req"
  shows "app req f d = (\<lparr>status = 404, body = Send ''404: Not Found''\<rparr>, d)"
  using assms by (simp add: app_def not_found_def)

lemma unknown_request_unmatched:
  "\<not> route_matches ''GET'' ''/api/counter'' unknown_request"
  "\<not> route_matches ''POST'' ''/api/counter/increment'' unknown_request"
  "\<not> route_matches ''GET'' ''/'' unknown_request"
  by (simp_all add: route_matches_def path_matches_def to_lower_def unknown_request_def)

text \<open>\<open>GET /nope\<close> is such a request.\<close>

theorem unmatched_request_404_witness:
  "json_body_error unknown_request = None
   \<and> \<not> route_matches ''GET'' ''/api/counter'' unknown_request
   \<and> \<not> route_matches ''POST'' ''/api/counter/increment'' unknown_request
   \<and> \<not> route_matches ''GET'' ''/'' unknown_request
   \<and> app unknown_request no_faults empty_store =
        (\<lparr>status = 404, body = Send ''404: Not Found''\<rparr>, empty_store)"
proof -
  have a: "json_body_error unknown_request = None"
    by (simp add: unknown_request_def)
  show ?thesis
    using unmatched_request_404 [OF a unknown_request_unmatched] a unknown_request_unmatched
    by simp
qed

text \<open>
  C5 as stated fails at \<open>GET /nope\<close>: the body is \<open>404: Not Found\<close>, not \<open>Not Found\<close>.
\<close>

theorem unmatched_request_counterexample:
  "\<not> route_matches ''GET'' ''/api/counter'' unknown_request
   \<and> \<not> route_matches ''POST'' ''/api/counter/increment'' unknown_request
   \<and> \<not> route_matches ''GET'' ''/'' unknown_request
   \<and> body (fst (app unknown_request no_faults empty_store)) = Send ''404: Not Found''
   \<and> Send ''404: Not Found'' \<noteq> Send ''Not Found''"
  using unknown_request_unmatched
  by (simp add: app_def not_found_def unknown_request_def)

text \<open>Matching ignores case, accepts a trailing slash, and lets HEAD reach a GET route.\<close>

lemma head_upper_case_matches: "route_matches ''GET'' ''/api/counter'' \<lparr>http_method = ''HEAD'', path = ''/API/Counter/'', json_body_error = None\<rparr>"
  by code_simp

subsection \<open>Startup failures\<close>

lemma startup_cases:
  "fst (startup f d) = (if fst (initializeDatabase f d) = Inr () then Listening else Exited 1)"
  by (cases "initializeDatabase f d"; cases "fst (initializeDatabase f d)")
     (simp_all add: startup_def)

lemma init_fault_fails:
  assumes "open_fails f \<or> create_fails f \<or> count_fails f
           \<or> (insert_fails f \<and> (counter d = None \<or> (\<exists>t. counter d = Some t \<and> rows t = [])))"
  shows "fst (initializeDatabase f d) \<noteq> Inr ()"
  using assms
  by (auto simp: initializeDatabase_def create_table_counter_def select_count_def
        insert_counter_def split: option.splits)

text \<open>
  C8: the process listens exactly when initialization has succeeded. When it fails, and it
  fails whenever the open, the table creation, the count or an attempted initial insert
  fails, the process exits with code 1, and no request is handled afterwards.
\<close>

theorem failed_initialization_never_serves:
  "(fst (initializeDatabase f d) \<noteq> Inr () \<longrightarrow> fst (startup f d) = Exited 1)
   \<and> (fst (startup f d) = Listening \<longrightarrow> fst (initializeDatabase f d) = Inr ())
   \<and> (open_fails f \<or> create_fails f \<or> count_fails f
        \<or> (insert_fails f \<and> (counter d = None \<or> (\<exists>t. counter d = Some t \<and> rows t = [])))
       \<longrightarrow> fst (startup f d) = Exited 1)
   \<and> (proc s \<noteq> Listening \<and> fst (initializeDatabase f (store s)) \<noteq> Inr ()
       \<longrightarrow> proc (sys_step (Start f) s) = Exited 1
           \<and> sys_step (Http req g) (sys_step (Start f) s) = sys_step (Start f) s)"
proof -
  have a: "fst (initializeDatabase f d) \<noteq> Inr () \<longrightarrow> fst (startup f d) = Exited 1"
    by (simp add: startup_cases)
  have b: "fst (startup f d) = Listening \<longrightarrow> fst (initializeDatabase f d) = Inr ()"
    by (simp add: startup_cases split: if_splits)
  have c: "open_fails f \<or> create_fails f \<or> count_fails f
        \<or> (insert_fails f \<and> (counter d = None \<or> (\<exists>t. counter d = Some t \<and> rows t = [])))
       \<longrightarrow> fst (startup f d) = Exited 1"
    using init_fault_fails [of f d] by (simp add: startup_cases)
  have e: "proc s \<noteq> Listening \<and> fst (initializeDatabase f (store s)) \<noteq> Inr ()
       \<longrightarrow> proc (sys_step (Start f) s) = Exited 1
           \<and> sys_step (Http req g) (sys_step (Start f) s) = sys_step (Start f) s"
  proof (intro impI, elim conjE)
    assume n: "proc s \<noteq> Listening" and i: "fst (initializeDatabase f (store s)) \<noteq> Inr ()"
    have "fst (startup f (store s)) = Exited 1"
      using i by (simp add: startup_cases)
    then have p: "proc (sys_step (Start f) s) = Exited 1"
      using n by (cases "startup f (store s)") simp
    then show "proc (sys_step (Start f) s) = Exited 1
           \<and> sys_step (Http req g) (sys_step (Start f) s) = sys_step (Start f) s"
      by simp
  qed
  show ?thesis using a b c e by blast
qed

text \<open>
  On the empty store: a failing initial insert ends the process and the next request
  changes nothing; with no failure the process listens.
\<close>

theorem failed_initialization_witness:
  "insert_fails insert_failure \<and> counter empty_store = None
   \<and> fst (initializeDatabase insert_failure empty_store) \<noteq> Inr ()
   \<and> fst (startup insert_failure empty_store) = Exited 1
   \<and> proc initial_system \<noteq> Listening
   \<and> proc (sys_step (Start insert_failure) initial_system) = Exited 1
   \<and> sys_step (Http increment_request no_faults) (sys_step (Start insert_failure) initial_system)
        = sys_step (Start insert_failure) initial_system
   \<and> fst (startup no_init_faults empty_store) = Listening
   \<and> fst (initializeDatabase no_init_faults empty_store) = Inr ()"
proof -
  have a: "insert_fails insert_failure" "counter empty_store = None"
    by (simp_all add: insert_failure_def empty_store_def)
  have b: "fst (initializeDatabase insert_failure empty_store) \<noteq> Inr ()"
    by (simp add: initializeDatabase_def create_table_counter_def select_count_def
        insert_counter_def insert_failure_def empty_store_def)
  have c: "proc initial_system \<noteq> Listening" "store initial_system = empty_store"
    by (simp_all add: initial_system_def)
  have l: "fst (startup no_init_faults empty_store) = Listening"
    by (simp add: startup_def init_empty_store_ok)
  show ?thesis
    using failed_initialization_never_serves
            [of insert_failure empty_store initial_system increment_request no_faults]
          failed_initialization_never_serves
            [of no_init_faults empty_store initial_system increment_request no_faults]
          a b c l
    by simp
qed

subsection \<open>The life of the system\<close>

lemma initialized_store_iff: "initialized_store d \<longleftrightarrow> (\<exists>v. 0 \<le> v \<and> d = store_with v)"
  by (auto simp: initialized_store_def stored_value_store_with split: option.splits)

lemma sqlite_plus_one_cases: "sqlite_plus_one v = v \<or> sqlite_plus_one v = v + 1"
  by (simp add: sqlite_plus_one_def)

lemma update_store_with:
  "snd (update_increment fails (store_with v)) =
     (if fails then store_with v else store_with (sqlite_plus_one v))"
  by (simp add: update_increment_def store_with_def)

lemma app_store_with:
  "snd (app req f (store_with v)) = store_with v
   \<or> snd (app req f (store_with v)) = store_with (sqlite_plus_one v)"
  by (simp add: app_def get_frame post_store update_store_with get_root_def not_found_def
      split: option.splits)

lemma init_store_with: "snd (initializeDatabase f (store_with v)) = store_with v"
  by (simp add: initializeDatabase_def create_table_counter_def select_count_def store_with_def)

lemma init_fresh:
  assumes "fresh_store d"
  shows "(fst (initializeDatabase f d) = Inr () \<and> snd (initializeDatabase f d) = store_with 0)
         \<or> (fst (initializeDatabase f d) \<noteq> Inr () \<and> fresh_store (snd (initializeDatabase f d)))"
  using assms
  by (cases "open_fails f"; cases "create_fails f"; cases "count_fails f"; cases "insert_fails f")
     (auto simp: fresh_store_def initializeDatabase_def create_table_counter_def select_count_def
        insert_counter_def next_rowid_def empty_store_def store_with_def INT64_MAX_def)

lemma startup_store: "snd (startup f d) = snd (initializeDatabase f d)"
  by (cases "initializeDatabase f d"; cases "fst (initializeDatabase f d)")
     (simp_all add: startup_def)

lemma step_initialized:
  assumes "store s = store_with v"
  shows "store (sys_step e s) = store_with v \<or> store (sys_step e s) = store_with (sqlite_plus_one v)"
proof (cases e)
  case (Start f)
  have "snd (startup f (store s)) = store_with v"
    using assms by (simp add: startup_store init_store_with)
  then show ?thesis
    using Start assms by (cases "startup f (store s)") simp
next
  case Kill
  then show ?thesis using assms by simp
next
  case (Http req f)
  then show ?thesis using assms app_store_with [of req f v] by auto
qed

lemma initialized_step:
  assumes "initialized_store (store s)"
  shows "initialized_store (store (sys_step e s))"
proof -
  obtain v where v: "0 \<le> v" "store s = store_with v"
    using assms by (auto simp: initialized_store_iff)
  have "0 \<le> sqlite_plus_one v"
    using v(1) by (simp add: sqlite_plus_one_def)
  then show ?thesis
    using step_initialized [OF v(2), of e] v(1) by (auto simp: initialized_store_iff)
qed

lemma reachable_store:
  "reachable s \<Longrightarrow>
   (fresh_store (store s) \<and> proc s \<noteq> Listening) \<or> initialized_store (store s)"
proof (induction rule: reachable.induct)
  case reachable_initial
  then show ?case by (simp add: initial_system_def fresh_store_def)
next
  case (reachable_step s e)
  from reachable_step.IH show ?case
  proof
    assume fr: "fresh_store (store s) \<and> proc s \<noteq> Listening"
    show ?thesis
    proof (cases e)
      case (Start f)
      have st: "sys_step e s = \<lparr>proc = fst (startup f (store s)), store = snd (startup f (store s))\<rparr>"
        using Start fr by (cases "startup f (store s)") simp
      have "fresh_store (store s)" using fr by simp
      from init_fresh [OF this, of f] show ?thesis
      proof
        assume "fst (initializeDatabase f (store s)) = Inr ()
                \<and> snd (initializeDatabase f (store s)) = store_with 0"
        then have "initialized_store (store (sys_step e s))"
          using st by (auto simp: startup_store initialized_store_iff)
        then show ?thesis ..
      next
        assume "fst (initializeDatabase f (store s)) \<noteq> Inr ()
                \<and> fresh_store (snd (initializeDatabase f (store s)))"
        then have "fresh_store (store (sys_step e s)) \<and> proc (sys_step e s) \<noteq> Listening"
          using st by (simp add: startup_store startup_cases)
        then show ?thesis ..
      qed
    next
      case Kill
      then show ?thesis using fr by simp
    next
      case (Http req f)
      then show ?thesis using fr by simp
    qed
  next
    assume "initialized_store (store s)"
    then show ?thesis using initialized_step by blast
  qed
qed

lemma after_init_store: "reachable_after_init s \<Longrightarrow> initialized_store (store s)"
proof (induction rule: reachable_after_init.induct)
  case (after_init_start s f)
  have st: "sys_step (Start f) s = \<lparr>proc = fst (startup f (store s)), store = snd (startup f (store s))\<rparr>"
    using after_init_start(2) by (cases "startup f (store s)") simp
  have ok: "fst (initializeDatabase f (store s)) = Inr ()"
    using after_init_start(3) st by (simp add: startup_cases split: if_splits)
  from reachable_store [OF after_init_start(1)] show ?case
  proof
    assume "fresh_store (store s) \<and> proc s \<noteq> Listening"
    then have "snd (initializeDatabase f (store s)) = store_with 0"
      using init_fresh [of "store s" f] ok by auto
    then show ?thesis using st by (auto simp: startup_store initialized_store_iff)
  next
    assume "initialized_store (store s)"
    then show ?thesis using initialized_step by blast
  qed
next
  case (after_init_step s e)
  then show ?case using initialized_step by blast
qed

text \<open>
  C6: in every state the system reaches from the first successful startup on (the file
  being absent at the very beginning), the table holds exactly one row, the row of id 1,
  and every step of the system (a request, a stop, a restart, with or without storage
  errors) leaves its value unchanged or increases it by 1.
\<close>

theorem one_row_value_never_decreases:
  assumes "reachable_after_init s"
  shows "\<exists>v. counter (store s) = Some \<lparr>rows = [\<lparr>row_id = 1, row_value = v\<rparr>], seq = 1\<rparr>
           \<and> stored_value (store s) = Some v
           \<and> (\<forall>e. stored_value (store (sys_step e s)) = Some v
                   \<or> stored_value (store (sys_step e s)) = Some (v + 1))"
proof -
  obtain v where v: "store s = store_with v"
    using after_init_store [OF assms] by (auto simp: initialized_store_iff)
  have "\<forall>e. stored_value (store (sys_step e s)) = Some v
           \<or> stored_value (store (sys_step e s)) = Some (v + 1)"
  proof
    fix e
    show "stored_value (store (sys_step e s)) = Some v
           \<or> stored_value (store (sys_step e s)) = Some (v + 1)"
      using step_initialized [OF v, of e] sqlite_plus_one_cases [of v]
      by (auto simp: stored_value_store_with)
  qed
  then show ?thesis
    using v by (auto simp: store_with_def stored_value_def)
qed

text \<open>The state after the first startup, and an increment request in it.\<close>

theorem one_row_witness:
  "reachable_after_init first_start
   \<and> counter (store first_start) = Some \<lparr>rows = [\<lparr>row_id = 1, row_value = 0\<rparr>], seq = 1\<rparr>
   \<and> stored_value (store (sys_step (Http increment_request no_faults) first_start)) = Some (0 + 1)"
proof -
  have fs: "first_start = \<lparr>proc = Listening, store = store_with 0\<rparr>"
    by (simp add: first_start_def initial_system_def startup_def init_empty_store_ok)
  have r: "reachable_after_init first_start"
    unfolding first_start_def
    by (rule after_init_start [OF reachable_initial])
       (simp_all add: initial_system_def startup_def init_empty_store_ok)
  have m: "route_matches ''POST'' ''/api/counter/increment'' increment_request"
       "\<not> route_matches ''GET'' ''/api/counter'' increment_request"
    by (simp_all add: route_matches_def method_matches_def path_matches_def to_lower_def
        increment_request_def)
  have p: "stored_value (store (sys_step (Http increment_request no_faults) first_start)) = Some 1"
    using m by (simp add: fs app_def increment_request_def post_store update_store_with
        no_faults_def stored_value_store_with sqlite_plus_one_def INT64_MIN_def INT64_MAX_def)
  show ?thesis
    using one_row_value_never_decreases [OF r] r p
    by (auto simp: fs store_with_def)
qed

subsection \<open>Increments in flight together\<close>

lemma started_Cons: "started (p # ps) = (if p \<noteq> AwaitUpdate then Suc (started ps) else started ps)"
  by (simp add: started_def)

lemma started_le: "started ps \<le> length ps"
  by (simp add: started_def)

lemma started_begin:
  "i < length ps \<Longrightarrow> ps ! i = AwaitUpdate \<Longrightarrow> p \<noteq> AwaitUpdate \<Longrightarrow>
   started (ps[i := p]) = Suc (started ps)"
proof (induction ps arbitrary: i)
  case Nil
  then show ?case by simp
next
  case (Cons q ps)
  then show ?case by (cases i) (simp_all add: started_Cons)
qed

lemma started_keep:
  "i < length ps \<Longrightarrow> ps ! i \<noteq> AwaitUpdate \<Longrightarrow> p \<noteq> AwaitUpdate \<Longrightarrow>
   started (ps[i := p]) = started ps"
proof (induction ps arbitrary: i)
  case Nil
  then show ?case by simp
next
  case (Cons q ps)
  then show ?case by (cases i) (simp_all add: started_Cons)
qed

lemma started_less:
  "i < length ps \<Longrightarrow> ps ! i = AwaitUpdate \<Longrightarrow> started ps < length ps"
proof (induction ps arbitrary: i)
  case Nil
  then show ?case by simp
next
  case (Cons q ps)
  show ?case
  proof (cases i)
    case 0
    then show ?thesis using Cons.prems started_le [of ps] by (simp add: started_Cons)
  next
    case (Suc j)
    then have "started ps < length ps"
      using Cons.IH [of j] Cons.prems by simp
    then show ?thesis by (simp add: started_Cons)
  qed
qed

lemma started_all_responded: "all_responded ps \<Longrightarrow> started ps = length ps"
proof (induction ps)
  case Nil
  then show ?case by (simp add: started_def)
next
  case (Cons p ps)
  then show ?case by (cases p) (simp_all add: all_responded_def started_Cons)
qed

lemma started_replicate: "started (replicate k AwaitUpdate) = 0"
  by (simp add: started_def)

lemma run_select_pending: "fst (run_statement fails AwaitSelect d) \<noteq> AwaitUpdate"
  by (cases "select_value fails d"; cases "fst (select_value fails d)")
     (auto split: option.splits)

lemma run_select_store: "snd (run_statement fails AwaitSelect d) = d"
  using select_value_frame [of fails d]
  by (cases "select_value fails d"; cases "fst (select_value fails d)")
     (auto split: option.splits)

lemma run_update_ok:
  assumes "stored_value d = Some v"
  shows "fst (run_statement False AwaitUpdate d) = AwaitSelect"
    and "stored_value (snd (run_statement False AwaitUpdate d)) = Some (sqlite_plus_one v)"
proof -
  obtain t where t: "counter d = Some t" using assms stored_value_table by blast
  obtain d1 where u: "update_increment False d = (Inr (), d1)"
    using update_increment_table [OF t] by (cases "update_increment False d") auto
  show "fst (run_statement False AwaitUpdate d) = AwaitSelect"
    using u by simp
  show "stored_value (snd (run_statement False AwaitUpdate d)) = Some (sqlite_plus_one v)"
    using u stored_value_update [OF t] assms by simp
qed

lemma conc_step_invariant:
  assumes sv: "stored_value d = Some (V + int (started ps))"
    and lo: "INT64_MIN \<le> V" and hi: "V + int (length ps) \<le> 2 ^ 63"
    and st: "conc_step (i, False) (d, ps) = (d', ps')"
  shows "stored_value d' = Some (V + int (started ps')) \<and> length ps' = length ps"
proof (cases "i < length ps")
  case False
  then show ?thesis using st sv by simp
next
  case True
  obtain p d1 where r: "run_statement False (ps ! i) d = (p, d1)"
    by (cases "run_statement False (ps ! i) d")
  have res: "d' = d1" "ps' = ps[i := p]"
    using st True r by simp_all
  show ?thesis
  proof (cases "ps ! i")
    case AwaitUpdate
    have less: "started ps < length ps"
      using True AwaitUpdate by (rule started_less)
    have "V + int (started ps) \<le> INT64_MAX" "INT64_MIN \<le> V + int (started ps)"
      using less hi lo by (simp_all add: INT64_MAX_def)
    then have one: "sqlite_plus_one (V + int (started ps)) = V + int (started ps) + 1"
      by (simp add: sqlite_plus_one_def)
    have p: "p = AwaitSelect" and d1: "stored_value d1 = Some (V + int (started ps) + 1)"
      using run_update_ok [OF sv] r AwaitUpdate one by simp_all
    have "started ps' = Suc (started ps)"
      using res(2) p started_begin [OF True AwaitUpdate, of AwaitSelect] by simp
    then show ?thesis using d1 res by simp
  next
    case AwaitSelect
    have p: "p \<noteq> AwaitUpdate" and d1: "d1 = d"
      using run_select_pending [of False d] run_select_store [of False d] r AwaitSelect
      by simp_all
    have "started ps' = started ps"
      using res(2) started_keep [OF True _ p] AwaitSelect by simp
    then show ?thesis using sv d1 res by simp
  next
    case (Responded x)
    then have "p = Responded x" "d1 = d" using r by simp_all
    then have "ps' = ps" using res(2) Responded by (simp add: list_update_same_conv True)
    then show ?thesis using sv \<open>d1 = d\<close> res by simp
  qed
qed

lemma fold_conc_step_invariant:
  assumes "no_fault_schedule sch"
    and "stored_value d = Some (V + int (started ps))"
    and "INT64_MIN \<le> V" and "V + int (length ps) \<le> 2 ^ 63"
    and "fold conc_step sch (d, ps) = (d', ps')"
  shows "stored_value d' = Some (V + int (started ps')) \<and> length ps' = length ps"
  using assms
proof (induction sch arbitrary: d ps)
  case Nil
  then show ?case by simp
next
  case (Cons a sch)
  obtain i where a: "a = (i, False)"
    using Cons.prems(1) by (cases a) (simp add: no_fault_schedule_def)
  obtain d1 ps1 where s: "conc_step (i, False) (d, ps) = (d1, ps1)"
    by (cases "conc_step (i, False) (d, ps)")
  have inv: "stored_value d1 = Some (V + int (started ps1)) \<and> length ps1 = length ps"
    using conc_step_invariant [OF Cons.prems(2,3,4) s] .
  have rest: "no_fault_schedule sch"
    using Cons.prems(1) by (simp add: no_fault_schedule_def)
  have f: "fold conc_step sch (d1, ps1) = (d', ps')"
    using Cons.prems(5) a s by simp
  have "stored_value d' = Some (V + int (started ps')) \<and> length ps' = length ps1"
    using inv Cons.prems(3,4) by (intro Cons.IH [OF rest _ _ _ f]) simp_all
  then show ?case using inv by simp
qed

text \<open>
  C9, as it holds: from a stored 64-bit integer \<open>V\<close>, with \<open>K\<close> increment requests in
  flight, \<open>V + K \<le> 2 ^ 63\<close> and no statement meeting a storage error, every
  interleaving of their statements that answers all of them leaves \<open>V + K\<close> in the file.
\<close>

theorem concurrent_increments_not_lost:
  assumes "stored_value d = Some V" and "INT64_MIN \<le> V" and "V + int K \<le> 2 ^ 63"
    and "no_fault_schedule sch"
    and "run_schedule sch K d = (d', ps)" and "all_responded ps"
  shows "stored_value d' = Some (V + int K)"
proof -
  have "stored_value d' = Some (V + int (started ps)) \<and> length ps = length (replicate K AwaitUpdate)"
    using assms(1,2,3,5)
    by (intro fold_conc_step_invariant [OF assms(4)])
       (simp_all add: started_replicate run_schedule_def)
  then show ?thesis
    using started_all_responded [OF assms(6)] by simp
qed


text \<open>
  Three requests from 10: the second one updates and reads before the third has
  updated, so it is answered 12, and the file ends at 13.
\<close>

lemma run_interleaved:
  "run_schedule interleaved 3 (store_with 10) =
     (store_with 13,
      [Responded \<lparr>status = 200, body = json_value 13\<rparr>,
       Responded \<lparr>status = 200, body = json_value 12\<rparr>,
       Responded \<lparr>status = 200, body = json_value 13\<rparr>])"
  by (simp add: run_schedule_def interleaved_def store_with_def update_increment_def
      select_value_def sqlite_plus_one_def INT64_MIN_def INT64_MAX_def to_js_number_def
      numeral_2_eq_2 numeral_3_eq_3)

text \<open>The theorem on that schedule.\<close>

theorem concurrent_increments_witness:
  "stored_value (store_with 10) = Some 10 \<and> INT64_MIN \<le> 10 \<and> 10 + int 3 \<le> 2 ^ 63
   \<and> no_fault_schedule interleaved
   \<and> all_responded (snd (run_schedule interleaved 3 (store_with 10)))
   \<and> stored_value (fst (run_schedule interleaved 3 (store_with 10))) = Some (10 + int 3)"
proof -
  have a: "stored_value (store_with 10) = Some 10"
    by (rule stored_value_store_with)
  have b: "INT64_MIN \<le> 10" "10 + int 3 \<le> 2 ^ 63"
    by (simp_all add: INT64_MIN_def)
  have c: "no_fault_schedule interleaved"
    by (simp add: no_fault_schedule_def interleaved_def)
  have e: "all_responded [Responded \<lparr>status = 200, body = json_value 13\<rparr>,
       Responded \<lparr>status = 200, body = json_value 12\<rparr>,
       Responded \<lparr>status = 200, body = json_value 13\<rparr>]"
    by (simp add: all_responded_def)
  show ?thesis
    using concurrent_increments_not_lost [OF a b c run_interleaved e] a b c e
    by (simp add: run_interleaved)
qed

text \<open>
  C9 as stated fails at \<open>V = 2 ^ 63 - 1\<close> with two requests: the first \<open>UPDATE\<close> overflows
  into the REAL \<open>2 ^ 63\<close>, the second is absorbed by it, and the file ends at \<open>V + 1\<close>.
\<close>

theorem concurrent_increments_counterexample:
  "stored_value (store_with 9223372036854775807) = Some 9223372036854775807
   \<and> no_fault_schedule two_requests
   \<and> all_responded (snd (run_schedule two_requests 2 (store_with 9223372036854775807)))
   \<and> stored_value (fst (run_schedule two_requests 2 (store_with 9223372036854775807)))
        = Some 9223372036854775808
   \<and> (9223372036854775808 :: int) \<noteq> 9223372036854775807 + int 2"
proof -
  have n: "to_js_number 9223372036854775808 = 9223372036854775808"
    by code_simp
  have r: "run_schedule two_requests 2 (store_with 9223372036854775807) =
     (store_with 9223372036854775808,
      [Responded \<lparr>status = 200, body = json_value 9223372036854775808\<rparr>,
       Responded \<lparr>status = 200, body = json_value 9223372036854775808\<rparr>])"
    by (simp add: run_schedule_def two_requests_def store_with_def update_increment_def
      select_value_def sqlite_plus_one_def INT64_MIN_def INT64_MAX_def n numeral_2_eq_2)
  have c: "no_fault_schedule two_requests"
    by (simp add: no_fault_schedule_def two_requests_def)
  show ?thesis
    using c by (simp add: r stored_value_store_with all_responded_def)
qed

end
